theory Spec2Isabelle
  imports Main "HOL-Library.Word" "HOL-Library.Monad_Syntax"
begin

section \<open>The graph in CSR form (src/ktruss.cu, struct Graph)\<close>

text \<open>
  The struct has two int arrays (row pointers and column indices), the two counts and the
  explicit edge list. Array contents, indices and counters are modelled as mathematical
  integers: an index stays below the bound of the array it reads and \<open>count\<close> below the
  length of a neighbour list, so none of them can leave the range of a C \<open>int\<close> on arrays
  that an \<open>int\<close> can index. The one value whose overflow matters is the threshold
  \<open>k - 2\<close>; there \<open>k\<close> is a 32-bit word and the subtraction wraps.
\<close>

record Graph =
  rowPtr :: "int list"
  colIdx :: "int list"
  numNodes :: int
  numEdges :: int
  edges :: "(int \<times> int) list"

subsection \<open>Array access\<close>

text \<open>
  Reading or writing outside an array is undefined behaviour in C++. The model makes it
  the value \<open>None\<close>, so a result \<open>Some r\<close> says that every access was in range.
\<close>

definition rd :: "'a list \<Rightarrow> int \<Rightarrow> 'a option" where
  "rd a i = (if 0 \<le> i \<and> i < int (length a) then Some (a ! nat i) else None)"

definition wr :: "'a list \<Rightarrow> int \<Rightarrow> 'a \<Rightarrow> 'a list option" where
  "wr a i x = (if 0 \<le> i \<and> i < int (length a) then Some (a[nat i := x]) else None)"

text \<open>\<open>cudaMemcpy\<close> of the first \<open>n\<close> elements of a host array.\<close>

definition memcpy :: "'a list \<Rightarrow> int \<Rightarrow> 'a list option" where
  "memcpy a n = (if 0 \<le> n \<and> n \<le> int (length a) then Some (take (nat n) a) else None)"

section \<open>The kernel countTriangles (lines 15-43)\<close>

text \<open>The two-pointer loop of lines 26-41, with the source's order of tests.\<close>

function countTriangles_loop ::
  "int list \<Rightarrow> int \<Rightarrow> int \<Rightarrow> int \<Rightarrow> int \<Rightarrow> int \<Rightarrow> int \<Rightarrow> int \<Rightarrow> int option" where
  "countTriangles_loop cols u v uEnd vEnd i j count =
     (if i < uEnd \<and> j < vEnd then
        (case rd cols i of
           None \<Rightarrow> None
         | Some uNeighbor \<Rightarrow>
            (case rd cols j of
               None \<Rightarrow> None
             | Some vNeighbor \<Rightarrow>
                 if uNeighbor = v then countTriangles_loop cols u v uEnd vEnd (i + 1) j count
                 else if vNeighbor = u then countTriangles_loop cols u v uEnd vEnd i (j + 1) count
                 else if uNeighbor = vNeighbor
                   then countTriangles_loop cols u v uEnd vEnd (i + 1) (j + 1) (count + 1)
                 else if uNeighbor < vNeighbor
                   then countTriangles_loop cols u v uEnd vEnd (i + 1) j count
                 else countTriangles_loop cols u v uEnd vEnd i (j + 1) count))
      else Some count)"
  by pat_completeness auto
termination
  by (relation "measure (\<lambda>(cols, u, v, uEnd, vEnd, i, j, count). nat (uEnd - i) + nat (vEnd - j))")
     auto

declare countTriangles_loop.simps [simp del]

text \<open>
  One thread of the kernel: \<open>edgeIdx\<close> is \<open>blockIdx.x * blockDim.x + threadIdx.x\<close>. A thread
  beyond the last edge returns at the guard of line 17 and leaves \<open>support\<close> as it is.
\<close>

definition countTriangles ::
  "int list \<Rightarrow> int list \<Rightarrow> int list \<Rightarrow> int list \<Rightarrow> int list \<Rightarrow> int \<Rightarrow> int \<Rightarrow> int list option" where
  "countTriangles rows cols edgeSrc edgeDst support n edgeIdx =
     (if edgeIdx \<ge> n then Some support
      else do {
        u \<leftarrow> rd edgeSrc edgeIdx;
        v \<leftarrow> rd edgeDst edgeIdx;
        uStart \<leftarrow> rd rows u;
        uEnd \<leftarrow> rd rows (u + 1);
        vStart \<leftarrow> rd rows v;
        vEnd \<leftarrow> rd rows (v + 1);
        count \<leftarrow> countTriangles_loop cols u v uEnd vEnd uStart vStart 0;
        wr support edgeIdx count
      })"

text \<open>
  The launch \<open>countTriangles<<<blocks, threads>>>\<close>: the threads are run one after the
  other in the order of their index. Each thread writes only its own slot of \<open>support\<close>,
  so every interleaving gives this result.
\<close>

fun launch ::
  "int list \<Rightarrow> int list \<Rightarrow> int list \<Rightarrow> int list \<Rightarrow> int \<Rightarrow> int list \<Rightarrow> int list \<Rightarrow> int list option" where
  "launch rows cols edgeSrc edgeDst n [] support = Some support"
| "launch rows cols edgeSrc edgeDst n (t # ts) support =
     (case countTriangles rows cols edgeSrc edgeDst support n t of
        None \<Rightarrow> None
      | Some support' \<Rightarrow> launch rows cols edgeSrc edgeDst n ts support')"

section \<open>The pruning loop of kTruss (lines 97-107)\<close>

text \<open>
  The inner \<open>for\<close> of lines 100-105, from index \<open>i\<close> on. The vector \<open>support\<close> has
  \<open>numEdges\<close> elements and \<open>i\<close> stays below \<open>numEdges\<close>, so the accesses are in range.
\<close>

function prune_pass :: "int \<Rightarrow> nat \<Rightarrow> nat \<Rightarrow> int list \<Rightarrow> bool \<Rightarrow> int list \<times> bool" where
  "prune_pass thr n i support changed =
     (if i < n then
        (if support ! i \<ge> 0 \<and> support ! i < thr
         then prune_pass thr n (i + 1) (support[i := -1]) True
         else prune_pass thr n (i + 1) support changed)
      else (support, changed))"
  by pat_completeness auto
termination
  by (relation "measure (\<lambda>(thr, n, i, support, changed). n - i)") auto

declare prune_pass.simps [simp del]

text \<open>
  The outer \<open>for\<close> of lines 98-107, from round \<open>iter\<close> on. Beside the vector it returns
  the number of rounds whose body ran, which the source does not keep beyond \<open>iter\<close>.
\<close>

function prune_loop :: "int \<Rightarrow> nat \<Rightarrow> nat \<Rightarrow> int list \<Rightarrow> int list \<times> nat" where
  "prune_loop thr n iter support =
     (if iter < n then
        (case prune_pass thr n 0 support False of
           (support', changed) \<Rightarrow>
             if \<not> changed then (support', iter + 1)
             else prune_loop thr n (iter + 1) support')
      else (support, iter))"
  by pat_completeness auto
termination
  by (relation "measure (\<lambda>(thr, n, iter, support). n - iter)") auto

declare prune_loop.simps [simp del]

section \<open>kTruss (lines 46-118)\<close>

text \<open>
  The threshold \<open>k - 2\<close> of lines 101 and 112, computed in 32 bits and read as a signed
  value.
\<close>

definition threshold :: "32 word \<Rightarrow> int" where
  "threshold k = sint (k - 2)"

text \<open>
  The final loop of lines 111-115 over the \<open>n = numEdges\<close> slots: one line per edge whose
  slot is at least \<open>k - 2\<close>.
\<close>

type_synonym report = "int \<times> int \<times> int \<times> int"

definition print_edges ::
  "int \<Rightarrow> nat \<Rightarrow> int list \<Rightarrow> int list \<Rightarrow> int list \<Rightarrow> report list" where
  "print_edges thr n edgeSrc edgeDst support =
     map (\<lambda>i. (int i, edgeSrc ! i, edgeDst ! i, support ! i))
       (filter (\<lambda>i. support ! i \<ge> thr) [0..<n])"

text \<open>
  Lines 48-87: the edge arrays are filled from the first \<open>numEdges\<close> entries of the edge
  list, the CSR arrays are copied to the device (\<open>numNodes + 1\<close> row pointers and \<open>rowPtr[numNodes]\<close> column indices), the
  kernel runs on \<open>blocks * 256\<close> threads and the supports are copied back. The device
  array \<open>d_support\<close> is not initialised by the source; the model starts it at 0, and
  \<open>launch_any_start\<close> below shows that the start value is overwritten in every slot.
\<close>

definition initial_support :: "Graph \<Rightarrow> (int list \<times> int list \<times> int list) option" where
  "initial_support g =
     do {
       es \<leftarrow> memcpy (edges g) (numEdges g);
       let edgeSrc = map fst es;
       let edgeDst = map snd es;
       d_rowPtr \<leftarrow> memcpy (rowPtr g) (numNodes g + 1);
       m \<leftarrow> rd (rowPtr g) (numNodes g);
       d_colIdx \<leftarrow> memcpy (colIdx g) m;
       let threads = 256;
       let blocks = (numEdges g + threads - 1) div threads;
       support \<leftarrow> launch d_rowPtr d_colIdx edgeSrc edgeDst (numEdges g)
                   (map int [0..<nat (blocks * threads)])
                   (replicate (nat (numEdges g)) 0);
       Some (edgeSrc, edgeDst, support)
     }"

text \<open>
  The result of \<open>kTruss\<close> is what it prints under the header of line 110: for each
  reported edge its index, its two endpoints and the content of its support slot. The
  debug output before is not modelled.
\<close>

definition kTruss :: "Graph \<Rightarrow> 32 word \<Rightarrow> report list option" where
  "kTruss g k =
     do {
       (edgeSrc, edgeDst, support) \<leftarrow> initial_support g;
       let n = nat (numEdges g);
       let support' = fst (prune_loop (threshold k) n 0 support);
       Some (print_edges (threshold k) n edgeSrc edgeDst support')
     }"

text \<open>
  The pruning loop on a vector that has \<open>numEdges\<close> slots, as the vector \<open>support\<close> of
  \<open>kTruss\<close> has (\<open>initial_support_length\<close> below).
\<close>

definition pruned :: "int \<Rightarrow> int list \<Rightarrow> int list \<times> nat" where
  "pruned thr support = prune_loop thr (length support) 0 support"

section \<open>The example graph\<close>

text \<open>
  Four nodes and the five edges of line 126, with the CSR arrays of that undirected
  graph (node 0: 1 2; node 1: 0 2 3; node 2: 0 1 3; node 3: 1 2).
\<close>

definition diamond :: Graph where
  "diamond = \<lparr> rowPtr = [0, 2, 5, 8, 10],
               colIdx = [1, 2, 0, 2, 3, 0, 1, 3, 1, 2],
               numNodes = 4, numEdges = 5,
               edges = [(0, 1), (0, 2), (1, 2), (1, 3), (2, 3)] \<rparr>"

text \<open>
  The arrays that \<open>main\<close> hands to \<open>kTruss\<close> (lines 124-126). They are not the CSR form
  of the edge list beside them: node 1 and node 2 lack the neighbour 3, and node 3 has
  itself as only neighbour.
\<close>

definition main_graph :: Graph where
  "main_graph = \<lparr> rowPtr = [0, 2, 4, 6, 7],
                  colIdx = [1, 2, 0, 2, 0, 1, 3, 3],
                  numNodes = 4, numEdges = 5,
                  edges = [(0, 1), (0, 2), (1, 2), (1, 3), (2, 3)] \<rparr>"

text \<open>The graph of the one edge that \<open>kTruss diamond 4\<close> reports, on the same four nodes.\<close>

definition diamond_rest :: Graph where
  "diamond_rest = \<lparr> rowPtr = [0, 0, 1, 2, 2],
                    colIdx = [2, 1],
                    numNodes = 4, numEdges = 1,
                    edges = [(1, 2)] \<rparr>"

text \<open>A graph of two nodes and one edge.\<close>

definition single_edge :: Graph where
  "single_edge = \<lparr> rowPtr = [0, 1, 2],
                   colIdx = [1, 0],
                   numNodes = 2, numEdges = 1,
                   edges = [(0, 1)] \<rparr>"

section \<open>Valid graphs and the support of an edge\<close>

text \<open>
  The neighbour list of a node as the kernel reads it: the entries of \<open>colIdx\<close> from
  \<open>rowPtr[u]\<close> up to \<open>rowPtr[u + 1]\<close>.
\<close>

definition NeighborRange :: "Graph \<Rightarrow> int \<Rightarrow> int list" where
  "NeighborRange g u =
     map (\<lambda>p. colIdx g ! p) [nat (rowPtr g ! nat u)..<nat (rowPtr g ! nat (u + 1))]"

text \<open>The nodes joined to \<open>u\<close> by an edge of the list, in either orientation.\<close>

definition edge_neighbors :: "(int \<times> int) list \<Rightarrow> int \<Rightarrow> int list" where
  "edge_neighbors es u =
     concat (map (\<lambda>(a, b). (if a = u then [b] else []) @ (if b = u then [a] else [])) es)"

text \<open>
  A valid simple undirected graph in CSR form: the counts fit the arrays, the row
  pointers start at 0, ascend and end at the length of \<open>colIdx\<close>, every edge joins two
  different nodes in range and occurs once, and the neighbour list of every node is
  strictly ascending and holds exactly the nodes joined to it by an edge.
\<close>

definition wf_graph :: "Graph \<Rightarrow> bool" where
  "wf_graph g =
     (0 \<le> numNodes g \<and> 0 \<le> numEdges g
      \<and> length (rowPtr g) = nat (numNodes g) + 1
      \<and> length (edges g) = nat (numEdges g)
      \<and> rowPtr g ! 0 = 0 \<and> sorted (rowPtr g)
      \<and> rowPtr g ! nat (numNodes g) = int (length (colIdx g))
      \<and> (\<forall>(u, v) \<in> set (edges g).
            0 \<le> u \<and> u < numNodes g \<and> 0 \<le> v \<and> v < numNodes g \<and> u \<noteq> v)
      \<and> distinct (map (\<lambda>(u, v). (min u v, max u v)) (edges g))
      \<and> (\<forall>u \<in> set (map int [0..<nat (numNodes g)]).
            sorted_wrt (<) (NeighborRange g u)
            \<and> set (NeighborRange g u) = set (edge_neighbors (edges g) u)))"

text \<open>
  The support of the edge \<open>{u, v}\<close> among the edges \<open>es\<close> as the README and the data model
  define it: the number of triangles that \<open>{u, v}\<close> forms with two further edges of \<open>es\<close>,
  that is the number of common neighbours of \<open>u\<close> and \<open>v\<close>.
\<close>

definition spec_support :: "(int \<times> int) list \<Rightarrow> int \<Rightarrow> int \<Rightarrow> nat" where
  "spec_support es u v = card (set (edge_neighbors es u) \<inter> set (edge_neighbors es v))"

section \<open>Notions for the proofs\<close>

text \<open>What one pass of the pruning loop does to one slot, and whether it finds a slot to mark.\<close>

definition mark_removed :: "int \<Rightarrow> int \<Rightarrow> int" where
  "mark_removed thr s = (if s \<ge> 0 \<and> s < thr then -1 else s)"

definition below :: "int \<Rightarrow> int list \<Rightarrow> bool" where
  "below thr support = (\<exists>s \<in> set support. s \<ge> 0 \<and> s < thr)"

text \<open>
  The number of common entries of the two neighbour lists of edge \<open>e\<close>, as read from the
  CSR arrays.
\<close>

definition csr_count :: "Graph \<Rightarrow> nat \<Rightarrow> int" where
  "csr_count g e =
     int (card (set (NeighborRange g (fst (edges g ! e))) \<inter> set (NeighborRange g (snd (edges g ! e)))))"


text \<open>The edges that a run reports, without index and support.\<close>

definition survivors :: "report list \<Rightarrow> (int \<times> int) list" where
  "survivors r = map (\<lambda>(i, u, v, s). (u, v)) r"

section \<open>The pruning loop\<close>

lemma prune_pass_length: "length (fst (prune_pass thr n i support changed)) = length support"
proof (induction thr n i support changed rule: prune_pass.induct)
  case (1 thr n i support changed)
  show ?case
  proof (cases "i < n")
    case False
    then show ?thesis by (subst prune_pass.simps) simp
  next
    case True
    show ?thesis
    proof (cases "support ! i \<ge> 0 \<and> support ! i < thr")
      case hit: True
      show ?thesis
        using True hit "1.IH"(1) [OF True hit] by (subst prune_pass.simps) simp
    next
      case miss: False
      show ?thesis
        using True miss "1.IH"(2) [OF True miss] by (subst prune_pass.simps) auto
    qed
  qed
qed

lemma prune_pass_nth:
  "fst (prune_pass thr n i support changed) ! j =
     (if i \<le> j \<and> j < n \<and> j < length support then mark_removed thr (support ! j) else support ! j)"
proof (induction thr n i support changed rule: prune_pass.induct)
  case (1 thr n i support changed)
  show ?case
  proof (cases "i < n")
    case False
    then show ?thesis by (subst prune_pass.simps) simp
  next
    case True
    show ?thesis
    proof (cases "support ! i \<ge> 0 \<and> support ! i < thr")
      case hit: True
      have "fst (prune_pass thr n i support changed) ! j
            = fst (prune_pass thr n (i + 1) (support[i := -1]) True) ! j"
        using True hit by (subst prune_pass.simps) simp
      also have "\<dots> = (if i + 1 \<le> j \<and> j < n \<and> j < length support
                        then mark_removed thr (support[i := -1] ! j) else support[i := -1] ! j)"
        using "1.IH"(1) [OF True hit] by simp
      also have "\<dots> = (if i \<le> j \<and> j < n \<and> j < length support
                        then mark_removed thr (support ! j) else support ! j)"
        using True hit by (cases "j = i") (auto simp: mark_removed_def list_update_beyond)
      finally show ?thesis .
    next
      case miss: False
      have "fst (prune_pass thr n i support changed) ! j
            = fst (prune_pass thr n (i + 1) support changed) ! j"
        using True miss by (subst prune_pass.simps) auto
      also have "\<dots> = (if i + 1 \<le> j \<and> j < n \<and> j < length support
                        then mark_removed thr (support ! j) else support ! j)"
        using "1.IH"(2) [OF True miss] by simp
      also have "\<dots> = (if i \<le> j \<and> j < n \<and> j < length support
                        then mark_removed thr (support ! j) else support ! j)"
        using True miss by (cases "j = i") (auto simp: mark_removed_def)
      finally show ?thesis .
    qed
  qed
qed

lemma prune_pass_changed:
  "snd (prune_pass thr n i support changed) =
     (changed \<or> (\<exists>j. i \<le> j \<and> j < n \<and> support ! j \<ge> 0 \<and> support ! j < thr))"
proof (induction thr n i support changed rule: prune_pass.induct)
  case (1 thr n i support changed)
  show ?case
  proof (cases "i < n")
    case False
    then show ?thesis by (subst prune_pass.simps) auto
  next
    case True
    show ?thesis
    proof (cases "support ! i \<ge> 0 \<and> support ! i < thr")
      case hit: True
      have "snd (prune_pass thr n i support changed)
            = snd (prune_pass thr n (i + 1) (support[i := -1]) True)"
        using True hit by (subst prune_pass.simps) simp
      also have "\<dots> = True"
        using "1.IH"(1) [OF True hit] by simp
      finally show ?thesis using True hit by auto
    next
      case miss: False
      have "snd (prune_pass thr n i support changed)
            = snd (prune_pass thr n (i + 1) support changed)"
        using True miss by (subst prune_pass.simps) auto
      also have "\<dots> = (changed \<or> (\<exists>j. i + 1 \<le> j \<and> j < n \<and> support ! j \<ge> 0 \<and> support ! j < thr))"
        using "1.IH"(2) [OF True miss] by simp
      also have "\<dots> = (changed \<or> (\<exists>j. i \<le> j \<and> j < n \<and> support ! j \<ge> 0 \<and> support ! j < thr))"
      proof -
        have "\<And>j. (i + 1 \<le> j \<and> j < n \<and> support ! j \<ge> 0 \<and> support ! j < thr)
                 = (i \<le> j \<and> j < n \<and> support ! j \<ge> 0 \<and> support ! j < thr)"
        proof -
          fix j
          show "(i + 1 \<le> j \<and> j < n \<and> support ! j \<ge> 0 \<and> support ! j < thr)
                 = (i \<le> j \<and> j < n \<and> support ! j \<ge> 0 \<and> support ! j < thr)"
            using miss by (cases "j = i") auto
        qed
        then show ?thesis by simp
      qed
      finally show ?thesis .
    qed
  qed
qed

lemma prune_pass_full:
  "prune_pass thr (length support) 0 support False = (map (mark_removed thr) support, below thr support)"
proof -
  have "fst (prune_pass thr (length support) 0 support False) = map (mark_removed thr) support"
    by (rule nth_equalityI) (simp_all add: prune_pass_length prune_pass_nth)
  moreover have "snd (prune_pass thr (length support) 0 support False) = below thr support"
    unfolding prune_pass_changed below_def
    by (metis in_set_conv_nth le0)
  ultimately show ?thesis by (simp add: prod_eq_iff)
qed

lemma mark_removed_idem: "mark_removed thr (mark_removed thr s) = mark_removed thr s"
  by (simp add: mark_removed_def)

lemma below_marked: "\<not> below thr (map (mark_removed thr) support)"
  by (auto simp: below_def mark_removed_def)

lemma prune_pass_again:
  "prune_pass thr (length support) 0 (map (mark_removed thr) support) False
     = (map (mark_removed thr) support, False)"
  using prune_pass_full [of thr "map (mark_removed thr) support"]
  by (simp add: mark_removed_idem below_marked)

lemma pruned_eq:
  "pruned thr support =
     (map (mark_removed thr) support,
      if support = [] then 0 else if below thr support \<and> length support \<ge> 2 then 2 else 1)"
proof (cases "support = []")
  case True
  then show ?thesis by (simp add: pruned_def prune_loop.simps)
next
  case False
  then have n: "0 < length support" by simp
  show ?thesis
  proof (cases "below thr support")
    case nb: False
    then show ?thesis using n False
      by (simp add: pruned_def prune_loop.simps [of thr "length support" 0] prune_pass_full)
  next
    case b: True
    have step: "pruned thr support
        = prune_loop thr (length support) 1 (map (mark_removed thr) support)"
      using n b by (simp add: pruned_def prune_loop.simps [of thr "length support" 0] prune_pass_full)
    show ?thesis
    proof (cases "length support \<ge> 2")
      case True
      then have "prune_loop thr (length support) 1 (map (mark_removed thr) support)
                 = (map (mark_removed thr) support, 2)"
        by (subst prune_loop.simps) (simp add: prune_pass_again)
      then show ?thesis using step b True False by simp
    next
      case short: False
      then have "prune_loop thr (length support) 1 (map (mark_removed thr) support)
                 = (map (mark_removed thr) support, 1)"
        by (subst prune_loop.simps) simp
      then show ?thesis using step b short False by simp
    qed
  qed
qed

lemma print_edges_marked:
  "print_edges thr (length support) edgeSrc edgeDst (map (mark_removed thr) support)
     = print_edges thr (length support) edgeSrc edgeDst support"
proof -
  have keep: "\<And>s. (mark_removed thr s \<ge> thr) = (s \<ge> thr)"
    by (auto simp: mark_removed_def)
  have same: "\<And>s. s \<ge> thr \<Longrightarrow> mark_removed thr s = s"
    by (auto simp: mark_removed_def)
  have f: "filter (\<lambda>i. map (mark_removed thr) support ! i \<ge> thr) [0..<length support]
         = filter (\<lambda>i. support ! i \<ge> thr) [0..<length support]"
    by (rule filter_cong) (simp_all add: keep)
  show ?thesis
    unfolding print_edges_def f
    by (rule map_cong) (simp_all add: same)
qed

lemma countTriangles_length:
  "countTriangles rows cols edgeSrc edgeDst support n t = Some support' \<Longrightarrow>
     length support' = length support"
  by (auto simp: countTriangles_def wr_def split: if_splits Option.bind_splits)

lemma launch_length:
  "launch rows cols edgeSrc edgeDst n ts support = Some support' \<Longrightarrow>
     length support' = length support"
proof (induction ts arbitrary: support)
  case Nil
  then show ?case by simp
next
  case (Cons t ts)
  then obtain s where s: "countTriangles rows cols edgeSrc edgeDst support n t = Some s"
    and r: "launch rows cols edgeSrc edgeDst n ts s = Some support'"
    by (auto split: option.splits)
  show ?case using Cons.IH [OF r] countTriangles_length [OF s] by simp
qed

lemma initial_support_length:
  "initial_support g = Some (edgeSrc, edgeDst, support) \<Longrightarrow> length support = nat (numEdges g)"
  by (auto simp: initial_support_def Let_def split: Option.bind_splits dest: launch_length)

lemma kTruss_filter:
  "kTruss g k = (case initial_support g of None \<Rightarrow> None
      | Some (edgeSrc, edgeDst, support) \<Rightarrow>
          Some (print_edges (threshold k) (nat (numEdges g)) edgeSrc edgeDst support))"
proof (cases "initial_support g")
  case None
  then show ?thesis by (simp add: kTruss_def)
next
  case (Some r)
  obtain edgeSrc edgeDst support where r: "r = (edgeSrc, edgeDst, support)"
    by (cases r) auto
  have n: "nat (numEdges g) = length support"
    using initial_support_length [of g edgeSrc edgeDst support] Some r by simp
  have "fst (prune_loop (threshold k) (length support) 0 support)
        = map (mark_removed (threshold k)) support"
    using pruned_eq [of "threshold k" support] by (simp add: pruned_def)
  then show ?thesis
    using Some r by (simp add: kTruss_def n print_edges_marked)
qed

section \<open>The two-pointer loop counts the common entries\<close>

lemma slice_Nil: "e \<le> i \<Longrightarrow> map ((!) cols) [nat i..<nat e] = []"
  by simp

lemma slice_Cons:
  "0 \<le> i \<Longrightarrow> i < e \<Longrightarrow>
     map ((!) cols) [nat i..<nat e] = cols ! nat i # map ((!) cols) [nat (i + 1)..<nat e]"
proof -
  assume a: "0 \<le> i" "i < e"
  then have "nat i < nat e" by simp
  then have "[nat i..<nat e] = nat i # [Suc (nat i)..<nat e]" by (rule upt_conv_Cons)
  moreover have "nat (i + 1) = Suc (nat i)" using a by simp
  ultimately show ?thesis by simp
qed

lemma card_match:
  assumes "finite A" "finite B" "x \<notin> A" "x \<notin> B" "x \<noteq> v" "x \<noteq> u"
  shows "card ((insert x A - {v}) \<inter> (insert x B - {u})) = Suc (card ((A - {v}) \<inter> (B - {u})))"
proof -
  have "(insert x A - {v}) \<inter> (insert x B - {u}) = insert x ((A - {v}) \<inter> (B - {u}))"
    using assms by auto
  moreover have "x \<notin> (A - {v}) \<inter> (B - {u})" using assms by simp
  moreover have "finite ((A - {v}) \<inter> (B - {u}))" using assms by simp
  ultimately show ?thesis by simp
qed

lemma countTriangles_loop_card:
  "0 \<le> i \<Longrightarrow> 0 \<le> j \<Longrightarrow> uEnd \<le> int (length cols) \<Longrightarrow> vEnd \<le> int (length cols) \<Longrightarrow>
   sorted_wrt (<) (map ((!) cols) [nat i..<nat uEnd]) \<Longrightarrow>
   sorted_wrt (<) (map ((!) cols) [nat j..<nat vEnd]) \<Longrightarrow>
   countTriangles_loop cols u v uEnd vEnd i j count =
     Some (count + int (card ((set (map ((!) cols) [nat i..<nat uEnd]) - {v})
                              \<inter> (set (map ((!) cols) [nat j..<nat vEnd]) - {u}))))"
proof (induction cols u v uEnd vEnd i j count rule: countTriangles_loop.induct)
  case (1 cols u v uEnd vEnd i j count)
  show ?case
  proof (cases "i < uEnd \<and> j < vEnd")
    case False
    then have "map ((!) cols) [nat i..<nat uEnd] = [] \<or> map ((!) cols) [nat j..<nat vEnd] = []"
      by auto
    then have "(set (map ((!) cols) [nat i..<nat uEnd]) - {v})
                 \<inter> (set (map ((!) cols) [nat j..<nat vEnd]) - {u}) = {}"
      by auto
    moreover have "countTriangles_loop cols u v uEnd vEnd i j count = Some count"
      using False by (subst countTriangles_loop.simps) auto
    ultimately show ?thesis by simp
  next
    case True
    define x where "x = cols ! nat i"
    define y where "y = cols ! nat j"
    define xs where "xs = map ((!) cols) [nat (i + 1)..<nat uEnd]"
    define ys where "ys = map ((!) cols) [nat (j + 1)..<nat vEnd]"
    have X: "map ((!) cols) [nat i..<nat uEnd] = x # xs"
      using True "1.prems"(1) by (simp add: slice_Cons x_def xs_def)
    have Y: "map ((!) cols) [nat j..<nat vEnd] = y # ys"
      using True "1.prems"(2) by (simp add: slice_Cons y_def ys_def)
    have rx: "rd cols i = Some x"
      using True "1.prems" by (simp add: rd_def x_def)
    have ry: "rd cols j = Some y"
      using True "1.prems" by (simp add: rd_def y_def)
    have sx: "sorted_wrt (<) xs" and lx: "\<forall>a \<in> set xs. x < a"
      using "1.prems"(5) unfolding X by simp_all
    have sy: "sorted_wrt (<) ys" and ly: "\<forall>b \<in> set ys. y < b"
      using "1.prems"(6) unfolding Y by simp_all
    have xn: "x \<notin> set xs" and yn: "y \<notin> set ys" using lx ly by auto
    have i1: "0 \<le> i + 1" and j1: "0 \<le> j + 1" using "1.prems" by simp_all
    let ?A = "set xs" and ?B = "set ys"
    let ?goal = "\<lambda>r. r = Some (count + int (card ((set (x # xs) - {v}) \<inter> (set (y # ys) - {u}))))"
    have unfold: "countTriangles_loop cols u v uEnd vEnd i j count =
        (if x = v then countTriangles_loop cols u v uEnd vEnd (i + 1) j count
         else if y = u then countTriangles_loop cols u v uEnd vEnd i (j + 1) count
         else if x = y then countTriangles_loop cols u v uEnd vEnd (i + 1) (j + 1) (count + 1)
         else if x < y then countTriangles_loop cols u v uEnd vEnd (i + 1) j count
         else countTriangles_loop cols u v uEnd vEnd i (j + 1) count)"
      using True by (subst countTriangles_loop.simps) (simp add: rx ry)
    consider (skipv) "x = v" | (skipu) "x \<noteq> v" "y = u" | (eq) "x \<noteq> v" "y \<noteq> u" "x = y"
      | (lt) "x \<noteq> v" "y \<noteq> u" "x \<noteq> y" "x < y" | (gt) "x \<noteq> v" "y \<noteq> u" "x \<noteq> y" "\<not> x < y"
      by blast
    then have "?goal (countTriangles_loop cols u v uEnd vEnd i j count)"
    proof cases
      case skipv
      have "countTriangles_loop cols u v uEnd vEnd (i + 1) j count
            = Some (count + int (card ((?A - {v}) \<inter> (set (y # ys) - {u}))))"
        using "1.IH"(1) [OF True rx ry skipv i1 "1.prems"(2) "1.prems"(3) "1.prems"(4)]
              sx "1.prems"(6)
        unfolding Y xs_def by simp
      moreover have "(set (x # xs) - {v}) \<inter> (set (y # ys) - {u}) = (?A - {v}) \<inter> (set (y # ys) - {u})"
        using skipv by auto
      ultimately show ?thesis using unfold skipv by simp
    next
      case skipu
      have "countTriangles_loop cols u v uEnd vEnd i (j + 1) count
            = Some (count + int (card ((set (x # xs) - {v}) \<inter> (?B - {u}))))"
        using "1.IH"(2) [OF True rx ry skipu "1.prems"(1) j1 "1.prems"(3) "1.prems"(4)]
              sy "1.prems"(5)
        unfolding X ys_def by simp
      moreover have "(set (x # xs) - {v}) \<inter> (set (y # ys) - {u}) = (set (x # xs) - {v}) \<inter> (?B - {u})"
        using skipu by auto
      ultimately show ?thesis using unfold skipu by simp
    next
      case eq
      have "countTriangles_loop cols u v uEnd vEnd (i + 1) (j + 1) (count + 1)
            = Some (count + 1 + int (card ((?A - {v}) \<inter> (?B - {u}))))"
        using "1.IH"(3) [OF True rx ry eq i1 j1 "1.prems"(3) "1.prems"(4)] sx sy
        unfolding xs_def ys_def by simp
      moreover have "card ((set (x # xs) - {v}) \<inter> (set (y # ys) - {u}))
                     = Suc (card ((?A - {v}) \<inter> (?B - {u})))"
        using card_match [of ?A ?B x v u] xn yn eq by simp
      ultimately show ?thesis using unfold eq by simp
    next
      case lt
      have "countTriangles_loop cols u v uEnd vEnd (i + 1) j count
            = Some (count + int (card ((?A - {v}) \<inter> (set (y # ys) - {u}))))"
        using "1.IH"(4) [OF True rx ry lt i1 "1.prems"(2) "1.prems"(3) "1.prems"(4)]
              sx "1.prems"(6)
        unfolding Y xs_def by simp
      moreover have "x \<notin> set (y # ys)" using lt ly by auto
      then have "(set (x # xs) - {v}) \<inter> (set (y # ys) - {u}) = (?A - {v}) \<inter> (set (y # ys) - {u})"
        by auto
      ultimately show ?thesis using unfold lt by simp
    next
      case gt
      have "countTriangles_loop cols u v uEnd vEnd i (j + 1) count
            = Some (count + int (card ((set (x # xs) - {v}) \<inter> (?B - {u}))))"
        using "1.IH"(5) [OF True rx ry gt "1.prems"(1) j1 "1.prems"(3) "1.prems"(4)]
              sy "1.prems"(5)
        unfolding X ys_def by simp
      moreover have "y \<notin> set (x # xs)" using gt lx by auto
      then have "(set (x # xs) - {v}) \<inter> (set (y # ys) - {u}) = (set (x # xs) - {v}) \<inter> (?B - {u})"
        by auto
      ultimately show ?thesis using unfold gt by simp
    qed
    then show ?thesis unfolding X Y .
  qed
qed

section \<open>The kernel on a valid graph\<close>

lemma set_edge_neighbors:
  "set (edge_neighbors es u) = {w. (u, w) \<in> set es \<or> (w, u) \<in> set es}"
  by (auto simp: edge_neighbors_def split: if_splits)

lemma wf_graph_edge:
  assumes "wf_graph g" "e < nat (numEdges g)"
  shows "0 \<le> fst (edges g ! e)" "fst (edges g ! e) < numNodes g"
        "0 \<le> snd (edges g ! e)" "snd (edges g ! e) < numNodes g"
        "fst (edges g ! e) \<noteq> snd (edges g ! e)"
proof -
  have m: "edges g ! e \<in> set (edges g)" using assms by (simp add: wf_graph_def)
  have "\<forall>p \<in> set (edges g). case p of (u, v) \<Rightarrow>
            0 \<le> u \<and> u < numNodes g \<and> 0 \<le> v \<and> v < numNodes g \<and> u \<noteq> v"
    using assms(1) unfolding wf_graph_def by (elim conjE)
  then have "case edges g ! e of (u, v) \<Rightarrow>
      0 \<le> u \<and> u < numNodes g \<and> 0 \<le> v \<and> v < numNodes g \<and> u \<noteq> v"
    using m by (rule bspec)
  then show "0 \<le> fst (edges g ! e)" "fst (edges g ! e) < numNodes g"
        "0 \<le> snd (edges g ! e)" "snd (edges g ! e) < numNodes g"
        "fst (edges g ! e) \<noteq> snd (edges g ! e)"
    by (simp_all add: case_prod_unfold)
qed

lemma wf_graph_node:
  assumes "wf_graph g" "0 \<le> u" "u < numNodes g"
  shows "sorted_wrt (<) (NeighborRange g u)"
    and "set (NeighborRange g u) = {w. (u, w) \<in> set (edges g) \<or> (w, u) \<in> set (edges g)}"
    and "u \<notin> set (NeighborRange g u)"
    and "0 \<le> rowPtr g ! nat u"
    and "rowPtr g ! nat (u + 1) \<le> int (length (colIdx g))"
    and "rd (rowPtr g) u = Some (rowPtr g ! nat u)"
    and "rd (rowPtr g) (u + 1) = Some (rowPtr g ! nat (u + 1))"
proof -
  have "u \<in> set (map int [0..<nat (numNodes g)])"
    using assms(2,3) by (auto simp: image_iff intro!: bexI [of _ "nat u"])
  moreover have "\<forall>u \<in> set (map int [0..<nat (numNodes g)]).
            sorted_wrt (<) (NeighborRange g u)
            \<and> set (NeighborRange g u) = set (edge_neighbors (edges g) u)"
    using assms(1) by (simp add: wf_graph_def)
  ultimately have n: "sorted_wrt (<) (NeighborRange g u)
            \<and> set (NeighborRange g u) = set (edge_neighbors (edges g) u)"
    by blast
  then show "sorted_wrt (<) (NeighborRange g u)" by simp
  show s: "set (NeighborRange g u) = {w. (u, w) \<in> set (edges g) \<or> (w, u) \<in> set (edges g)}"
    using n by (simp add: set_edge_neighbors)
  have loop: "\<forall>(a, b) \<in> set (edges g). a \<noteq> b"
    using assms(1) by (auto simp: wf_graph_def)
  show "u \<notin> set (NeighborRange g u)"
    unfolding s using loop by auto
  have len: "length (rowPtr g) = nat (numNodes g) + 1" and srt: "sorted (rowPtr g)"
    and r0: "rowPtr g ! 0 = 0" and rn: "rowPtr g ! nat (numNodes g) = int (length (colIdx g))"
    using assms(1) by (simp_all add: wf_graph_def)
  have "rowPtr g ! 0 \<le> rowPtr g ! nat u"
    using srt len assms(2,3) by (intro sorted_nth_mono) simp_all
  then show "0 \<le> rowPtr g ! nat u" using r0 by simp
  have "rowPtr g ! nat (u + 1) \<le> rowPtr g ! nat (numNodes g)"
    using srt len assms(2,3) by (intro sorted_nth_mono) simp_all
  then show "rowPtr g ! nat (u + 1) \<le> int (length (colIdx g))" using rn by simp
  show "rd (rowPtr g) u = Some (rowPtr g ! nat u)"
    using len assms(2,3) by (simp add: rd_def)
  show "rd (rowPtr g) (u + 1) = Some (rowPtr g ! nat (u + 1))"
    using len assms(2,3) by (simp add: rd_def)
qed

lemma countTriangles_loop_wf:
  assumes "wf_graph g" "0 \<le> u" "u < numNodes g" "0 \<le> v" "v < numNodes g"
  shows "countTriangles_loop (colIdx g) u v (rowPtr g ! nat (u + 1)) (rowPtr g ! nat (v + 1))
           (rowPtr g ! nat u) (rowPtr g ! nat v) 0
         = Some (int (card (set (NeighborRange g u) \<inter> set (NeighborRange g v))))"
proof -
  have U: "NeighborRange g u = map ((!) (colIdx g)) [nat (rowPtr g ! nat u)..<nat (rowPtr g ! nat (u + 1))]"
    unfolding NeighborRange_def ..
  have V: "NeighborRange g v = map ((!) (colIdx g)) [nat (rowPtr g ! nat v)..<nat (rowPtr g ! nat (v + 1))]"
    unfolding NeighborRange_def ..
  note nu = wf_graph_node [OF assms(1,2,3)]
  note nv = wf_graph_node [OF assms(1,4,5)]
  have s1: "sorted_wrt (<) (map ((!) (colIdx g)) [nat (rowPtr g ! nat u)..<nat (rowPtr g ! nat (u + 1))])"
    using nu(1) unfolding U .
  have s2: "sorted_wrt (<) (map ((!) (colIdx g)) [nat (rowPtr g ! nat v)..<nat (rowPtr g ! nat (v + 1))])"
    using nv(1) unfolding V .
  have "countTriangles_loop (colIdx g) u v (rowPtr g ! nat (u + 1)) (rowPtr g ! nat (v + 1))
           (rowPtr g ! nat u) (rowPtr g ! nat v) 0
        = Some (0 + int (card ((set (NeighborRange g u) - {v}) \<inter> (set (NeighborRange g v) - {u}))))"
    unfolding U V
    by (rule countTriangles_loop_card [OF nu(4) nv(4) nu(5) nv(5) s1 s2])
  moreover have "(set (NeighborRange g u) - {v}) \<inter> (set (NeighborRange g v) - {u})
                 = set (NeighborRange g u) \<inter> set (NeighborRange g v)"
    using nu(3) nv(3) by auto
  ultimately show ?thesis by simp
qed

lemma countTriangles_wf:
  assumes "wf_graph g" "e < nat (numEdges g)" "length support = nat (numEdges g)"
  shows "countTriangles (rowPtr g) (colIdx g) (map fst (edges g)) (map snd (edges g)) support
           (numEdges g) (int e)
         = Some (support[e := csr_count g e])"
proof -
  have len: "length (edges g) = nat (numEdges g)" using assms(1) by (simp add: wf_graph_def)
  note ed = wf_graph_edge [OF assms(1,2)]
  note nu = wf_graph_node [OF assms(1) ed(1,2)]
  note nv = wf_graph_node [OF assms(1) ed(3,4)]
  have ie: "int e < numEdges g" "0 \<le> numEdges g" using assms(2) by linarith+
  have r1: "rd (map fst (edges g)) (int e) = Some (fst (edges g ! e))"
    using assms(2) len ie by (simp add: rd_def)
  have r2: "rd (map snd (edges g)) (int e) = Some (snd (edges g ! e))"
    using assms(2) len ie by (simp add: rd_def)
  have w: "wr support (int e) c = Some (support[e := c])" for c
    using assms(2,3) ie by (simp add: wr_def)
  have g: "\<not> int e \<ge> numEdges g" using assms(2) by simp
  show ?thesis
    unfolding countTriangles_def
    by (simp only: g if_False r1 r2 nu(6,7) nv(6,7) bind.bind_lunit
          countTriangles_loop_wf [OF assms(1) ed(1,2,3,4)] w csr_count_def)
qed

lemma launch_upt:
  assumes "wf_graph g" "length support = nat (numEdges g)"
  shows "launch (rowPtr g) (colIdx g) (map fst (edges g)) (map snd (edges g)) (numEdges g)
           (map int [a..<b]) support
         = Some (map (\<lambda>j. if a \<le> j \<and> j < b then csr_count g j else support ! j)
                   [0..<nat (numEdges g)])"
  using assms(2)
proof (induction "b - a" arbitrary: a support)
  case 0
  then have e: "[a..<b] = []" by simp
  have m: "map (\<lambda>j. if a \<le> j \<and> j < b then csr_count g j else support ! j)
                   [0..<nat (numEdges g)] = support"
    using 0 by (intro nth_equalityI) auto
  show ?case unfolding e m by simp
next
  case (Suc d)
  then have ab: "a < b" and d: "d = b - Suc a" by simp_all
  have up: "[a..<b] = a # [Suc a..<b]" using ab by (rule upt_conv_Cons)
  show ?case
  proof (cases "a < nat (numEdges g)")
    case True
    have one: "countTriangles (rowPtr g) (colIdx g) (map fst (edges g)) (map snd (edges g)) support
           (numEdges g) (int a) = Some (support[a := csr_count g a])"
      using countTriangles_wf [OF assms(1) True Suc.prems] .
    have rest: "launch (rowPtr g) (colIdx g) (map fst (edges g)) (map snd (edges g)) (numEdges g)
           (map int [Suc a..<b]) (support[a := csr_count g a])
         = Some (map (\<lambda>j. if Suc a \<le> j \<and> j < b then csr_count g j
                           else support[a := csr_count g a] ! j) [0..<nat (numEdges g)])"
      using Suc.hyps(1) [OF d, of "support[a := csr_count g a]"] Suc.prems by simp
    have "map (\<lambda>j. if Suc a \<le> j \<and> j < b then csr_count g j
                           else support[a := csr_count g a] ! j) [0..<nat (numEdges g)]
          = map (\<lambda>j. if a \<le> j \<and> j < b then csr_count g j else support ! j)
                   [0..<nat (numEdges g)]"
      using ab Suc.prems by (intro map_cong refl) (auto simp: nth_list_update not_less_eq_eq)
    then show ?thesis unfolding up using one rest by simp
  next
    case False
    have one: "countTriangles (rowPtr g) (colIdx g) (map fst (edges g)) (map snd (edges g)) support
           (numEdges g) (int a) = Some support"
    proof -
      have "int a \<ge> numEdges g" using False by linarith
      then show ?thesis by (simp add: countTriangles_def)
    qed
    have rest: "launch (rowPtr g) (colIdx g) (map fst (edges g)) (map snd (edges g)) (numEdges g)
           (map int [Suc a..<b]) support
         = Some (map (\<lambda>j. if Suc a \<le> j \<and> j < b then csr_count g j
                           else support ! j) [0..<nat (numEdges g)])"
      using Suc.hyps(1) [OF d, of support] Suc.prems by simp
    have "map (\<lambda>j. if Suc a \<le> j \<and> j < b then csr_count g j
                           else support ! j) [0..<nat (numEdges g)]
          = map (\<lambda>j. if a \<le> j \<and> j < b then csr_count g j else support ! j)
                   [0..<nat (numEdges g)]"
      using False by (intro map_cong refl) auto
    then show ?thesis unfolding up using one rest by simp
  qed
qed

lemma grid_covers: "0 \<le> (n::int) \<Longrightarrow> nat n \<le> nat ((n + 256 - 1) div 256 * 256)"
  by simp

lemma launch_any_start:
  assumes "wf_graph g" "length support = nat (numEdges g)"
  shows "launch (rowPtr g) (colIdx g) (map fst (edges g)) (map snd (edges g)) (numEdges g)
           (map int [0..<nat ((numEdges g + 256 - 1) div 256 * 256)]) support
         = Some (map (csr_count g) [0..<nat (numEdges g)])"
proof -
  have "0 \<le> numEdges g" using assms(1) by (simp add: wf_graph_def)
  then have "nat (numEdges g) \<le> nat ((numEdges g + 256 - 1) div 256 * 256)"
    by (rule grid_covers)
  then have "map (\<lambda>j. if 0 \<le> j \<and> j < nat ((numEdges g + 256 - 1) div 256 * 256)
                        then csr_count g j else support ! j) [0..<nat (numEdges g)]
             = map (csr_count g) [0..<nat (numEdges g)]"
    by (intro map_cong refl) auto
  then show ?thesis using launch_upt [OF assms, of 0] by simp
qed

lemma initial_support_wf:
  assumes "wf_graph g"
  shows "initial_support g
         = Some (map fst (edges g), map snd (edges g), map (csr_count g) [0..<nat (numEdges g)])"
proof -
  have ne: "0 \<le> numEdges g" and nn: "0 \<le> numNodes g"
    and le: "length (edges g) = nat (numEdges g)"
    and lr: "length (rowPtr g) = nat (numNodes g) + 1"
    and rn: "rowPtr g ! nat (numNodes g) = int (length (colIdx g))"
    using assms by (simp_all add: wf_graph_def)
  have m1: "memcpy (edges g) (numEdges g) = Some (edges g)"
    using ne le by (simp add: memcpy_def)
  have m2: "memcpy (rowPtr g) (numNodes g + 1) = Some (rowPtr g)"
    using nn lr by (simp add: memcpy_def)
  have m3: "rd (rowPtr g) (numNodes g) = Some (int (length (colIdx g)))"
    using nn lr rn by (simp add: rd_def)
  have m4: "memcpy (colIdx g) (int (length (colIdx g))) = Some (colIdx g)"
    by (simp add: memcpy_def)
  have l: "launch (rowPtr g) (colIdx g) (map fst (edges g)) (map snd (edges g)) (numEdges g)
           (map int [0..<nat ((numEdges g + 256 - 1) div 256 * 256)])
           (replicate (nat (numEdges g)) 0)
         = Some (map (csr_count g) [0..<nat (numEdges g)])"
    by (rule launch_any_start [OF assms]) simp
  show ?thesis
    unfolding initial_support_def
    by (simp only: m1 m2 m3 m4 l bind.bind_lunit Let_def)
qed

section \<open>The threshold and the report\<close>

lemma threshold_in_range:
  "- 2147483646 \<le> sint k \<Longrightarrow> threshold k = sint k - 2"
proof -
  assume a: "- 2147483646 \<le> sint k"
  have up: "sint k < 2 ^ 31" using sint_lt [of k] by simp
  have "sint (k - 2) = signed_take_bit 31 (sint k - sint (2 :: 32 word))"
    by (simp add: sint_word_ariths)
  also have "\<dots> = signed_take_bit 31 (sint k - 2)" by simp
  also have "\<dots> = sint k - 2"
    using a up by (intro signed_take_bit_int_eq_self) simp_all
  finally show ?thesis by (simp add: threshold_def)
qed




lemma mark_removed_nonneg:
  "thr \<le> 0 \<Longrightarrow> \<forall>s \<in> set support. 0 \<le> s \<Longrightarrow> map (mark_removed thr) support = support"
  by (induction support) (auto simp: mark_removed_def)

lemma below_nonneg: "thr \<le> 0 \<Longrightarrow> \<not> below thr support"
  by (auto simp: below_def)

lemma print_edges_all:
  "\<forall>s \<in> set support. thr \<le> s \<Longrightarrow>
   print_edges thr (length support) edgeSrc edgeDst support
     = map (\<lambda>i. (int i, edgeSrc ! i, edgeDst ! i, support ! i)) [0..<length support]"
proof -
  assume a: "\<forall>s \<in> set support. thr \<le> s"
  have "filter (\<lambda>i. support ! i \<ge> thr) [0..<length support] = [0..<length support]"
    using a by (intro filter_True) simp
  then show ?thesis by (simp add: print_edges_def)
qed

lemma print_edges_mono:
  "t1 \<le> t2 \<Longrightarrow>
   set (print_edges t2 n edgeSrc edgeDst support) \<subseteq> set (print_edges t1 n edgeSrc edgeDst support)"
  by (auto simp: print_edges_def)

lemma kTruss_wf:
  assumes "wf_graph g"
  shows "kTruss g k = Some (print_edges (threshold k) (nat (numEdges g))
                        (map fst (edges g)) (map snd (edges g))
                        (map (csr_count g) [0..<nat (numEdges g)]))"
  by (simp add: kTruss_filter initial_support_wf [OF assms])

lemma csr_count_nonneg: "0 \<le> csr_count g e"
  by (simp add: csr_count_def)

lemma kTruss_wf_all:
  assumes "wf_graph g" "threshold k \<le> 0"
  shows "kTruss g k = Some (map (\<lambda>i. (int i, fst (edges g ! i), snd (edges g ! i), csr_count g i))
                        [0..<nat (numEdges g)])"
proof -
  have le: "length (edges g) = nat (numEdges g)" using assms(1) by (simp add: wf_graph_def)
  have "\<forall>s \<in> set (map (csr_count g) [0..<nat (numEdges g)]). threshold k \<le> s"
    using assms(2) csr_count_nonneg [of g] by (auto intro: order_trans)
  then have "print_edges (threshold k) (length (map (csr_count g) [0..<nat (numEdges g)]))
                        (map fst (edges g)) (map snd (edges g))
                        (map (csr_count g) [0..<nat (numEdges g)])
        = map (\<lambda>i. (int i, map fst (edges g) ! i, map snd (edges g) ! i,
                     map (csr_count g) [0..<nat (numEdges g)] ! i))
            [0..<length (map (csr_count g) [0..<nat (numEdges g)])]"
    by (rule print_edges_all)
  also have "\<dots> = map (\<lambda>i. (int i, fst (edges g ! i), snd (edges g ! i), csr_count g i))
                        [0..<nat (numEdges g)]"
    using le by (intro map_cong) simp_all
  finally show ?thesis using kTruss_wf [OF assms(1), of k] by simp
qed

section \<open>The example graphs\<close>

lemma diamond_wf: "wf_graph diamond"
  by code_simp

lemma diamond_rest_wf: "wf_graph diamond_rest"
  by code_simp

lemma single_edge_wf: "wf_graph single_edge"
  by code_simp

lemma main_graph_not_wf: "\<not> wf_graph main_graph"
  by code_simp

lemma diamond_initial_support:
  "initial_support diamond = Some ([0, 0, 1, 1, 2], [1, 2, 2, 3, 3], [1, 1, 2, 1, 1])"
  by code_simp

lemma main_graph_initial_support:
  "initial_support main_graph = Some ([0, 0, 1, 1, 2], [1, 2, 2, 3, 3], [1, 1, 1, 0, 0])"
  by code_simp

lemma diamond_peel3:
  "kTruss diamond 3 = Some [(0, 0, 1, 1), (1, 0, 2, 1), (2, 1, 2, 2), (3, 1, 3, 1), (4, 2, 3, 1)]"
  by code_simp

lemma diamond_peel4: "kTruss diamond 4 = Some [(2, 1, 2, 2)]"
  by code_simp


lemma threshold_4: "threshold 4 = 2"
  by (simp add: threshold_def)

lemma threshold_1: "threshold 1 = - 1"
  by (simp add: threshold_def)

lemma threshold_min: "threshold (- 2147483648) = 2147483646"
  by (simp add: threshold_def)

section \<open>The claims\<close>

text \<open>
  Claim C4. On a valid simple undirected graph the kernel, launched as \<open>kTruss\<close> launches
  it, runs without an access out of range and leaves in the slot of every edge \<open>(u, v)\<close> of
  the edge list the number of entries that the neighbour lists of \<open>u\<close> and \<open>v\<close> have in
  common. That is the number of nodes \<open>w\<close> with both \<open>{u, w}\<close> and \<open>{v, w}\<close> in the edge
  list. The count is the one of the two-pointer loop \<open>countTriangles_loop\<close>, which skips
  \<open>v\<close> in the list of \<open>u\<close> and \<open>u\<close> in the list of \<open>v\<close>.
\<close>

theorem countTriangles_counts_common_neighbors:
  assumes "wf_graph g" "e < nat (numEdges g)" "edges g ! e = (u, v)"
  shows "\<exists>edgeSrc edgeDst support.
           initial_support g = Some (edgeSrc, edgeDst, support)
           \<and> length support = nat (numEdges g)
           \<and> edgeSrc ! e = u \<and> edgeDst ! e = v
           \<and> support ! e = int (card (set (NeighborRange g u) \<inter> set (NeighborRange g v)))
           \<and> support ! e =
               int (card {w. ((u, w) \<in> set (edges g) \<or> (w, u) \<in> set (edges g))
                             \<and> ((v, w) \<in> set (edges g) \<or> (w, v) \<in> set (edges g))})"
proof -
  note ed = wf_graph_edge [OF assms(1,2)]
  have uv: "fst (edges g ! e) = u" "snd (edges g ! e) = v" using assms(3) by simp_all
  have le: "length (edges g) = nat (numEdges g)" using assms(1) by (simp add: wf_graph_def)
  have nu: "set (NeighborRange g u) = {w. (u, w) \<in> set (edges g) \<or> (w, u) \<in> set (edges g)}"
    using wf_graph_node(2) [OF assms(1) ed(1,2)] unfolding uv .
  have nv: "set (NeighborRange g v) = {w. (v, w) \<in> set (edges g) \<or> (w, v) \<in> set (edges g)}"
    using wf_graph_node(2) [OF assms(1) ed(3,4)] unfolding uv .
  have c: "csr_count g e = int (card (set (NeighborRange g u) \<inter> set (NeighborRange g v)))"
    by (simp add: csr_count_def uv)
  have "set (NeighborRange g u) \<inter> set (NeighborRange g v)
        = {w. ((u, w) \<in> set (edges g) \<or> (w, u) \<in> set (edges g))
              \<and> ((v, w) \<in> set (edges g) \<or> (w, v) \<in> set (edges g))}"
    unfolding nu nv by blast
  then have c': "csr_count g e =
               int (card {w. ((u, w) \<in> set (edges g) \<or> (w, u) \<in> set (edges g))
                             \<and> ((v, w) \<in> set (edges g) \<or> (w, v) \<in> set (edges g))})"
    using c by simp
  have n: "map (csr_count g) [0..<nat (numEdges g)] ! e = csr_count g e"
    using assms(2) by simp
  show ?thesis
    using initial_support_wf [OF assms(1)] assms(2) le uv c c' n by simp
qed

text \<open>The claim at the edge \<open>{1, 2}\<close> of the example graph, which lies in two triangles.\<close>

theorem countTriangles_counts_common_neighbors_witness:
  "wf_graph diamond \<and> 2 < nat (numEdges diamond) \<and> edges diamond ! 2 = (1, 2)
   \<and> initial_support diamond = Some ([0, 0, 1, 1, 2], [1, 2, 2, 3, 3], [1, 1, 2, 1, 1])
   \<and> card (set (NeighborRange diamond 1) \<inter> set (NeighborRange diamond 2)) = 2
   \<and> card {w. ((1, w) \<in> set (edges diamond) \<or> (w, 1) \<in> set (edges diamond))
               \<and> ((2, w) \<in> set (edges diamond) \<or> (w, 2) \<in> set (edges diamond))} = 2"
proof -
  have h2: "2 < nat (numEdges diamond)" by (simp add: diamond_def)
  have h3: "edges diamond ! 2 = (1, 2)" by (simp add: diamond_def)
  from countTriangles_counts_common_neighbors [OF diamond_wf h2 h3]
  show ?thesis using diamond_wf h2 h3 by (simp add: diamond_initial_support)
qed

text \<open>
  Claim C9, as stated: for every \<open>k\<close> the edges reported are exactly those whose initial
  support is at least \<open>k - 2\<close>. For the least \<open>int\<close> the number \<open>k - 2\<close> is -2147483650 and the
  support 0 of the one edge of \<open>single_edge\<close> is not below it, so the filter of the claim
  keeps the edge. The \<open>int\<close> subtraction of the code wraps to 2147483646, the loop marks
  the slot and \<open>kTruss\<close> reports nothing.
\<close>

theorem kTruss_filter_min_k_counterexample:
  "initial_support single_edge = Some ([0], [1], [0])
   \<and> nat (numEdges single_edge) = 1
   \<and> sint (- 2147483648 :: 32 word) - 2 = - 2147483650
   \<and> sint (- 2147483648 :: 32 word) - 2 \<le> 0
   \<and> threshold (- 2147483648) = 2147483646
   \<and> prune_loop (threshold (- 2147483648)) (nat (numEdges single_edge)) 0 [0] = ([- 1], 1)
   \<and> kTruss single_edge (- 2147483648) = Some []"
proof -
  have "initial_support single_edge = Some ([0], [1], [0])" by code_simp
  moreover have "nat (numEdges single_edge) = 1" by (simp add: single_edge_def)
  moreover have "prune_loop 2147483646 1 0 [0] = ([- 1], 1)" by code_simp
  moreover have "kTruss single_edge (- 2147483648) = Some []" by code_simp
  ultimately show ?thesis by (simp add: threshold_min)
qed

text \<open>
  Claim C9, amended. For every graph and every \<open>k \<ge> -2147483646\<close>, so that the \<open>int\<close>
  subtraction \<open>k - 2\<close> of lines 101 and 112 does not overflow and its value is the number
  \<open>k - 2\<close>, the pruning loop of \<open>kTruss\<close> is one filter on the supports that the kernel
  computed: the edges reported are those whose initial support is at least \<open>k - 2\<close>, each
  with that initial support (a run with an access out of range has no result on either
  side; on a valid graph there is a result). The loop of \<open>kTruss\<close> is the loop at the
  threshold \<open>k - 2\<close> on a vector of \<open>numEdges\<close> slots. It changes a slot only by writing the
  mark \<open>-1\<close> over a support that is not negative and below \<open>k - 2\<close>, its result is that of
  its first pass, and a pass after the first changes nothing.
\<close>

theorem kTruss_prune_is_single_filter:
  assumes "- 2147483646 \<le> sint k"
  shows "threshold k = sint k - 2
   \<and> kTruss g k =
     (case initial_support g of
        None \<Rightarrow> None
      | Some (edgeSrc, edgeDst, initial) \<Rightarrow>
          Some (map (\<lambda>i. (int i, edgeSrc ! i, edgeDst ! i, initial ! i))
                 (filter (\<lambda>i. initial ! i \<ge> sint k - 2) [0..<nat (numEdges g)])))
   \<and> (wf_graph g \<longrightarrow>
        kTruss g k =
          Some (map (\<lambda>i. (int i, fst (edges g ! i), snd (edges g ! i), csr_count g i))
                 (filter (\<lambda>i. csr_count g i \<ge> sint k - 2) [0..<nat (numEdges g)])))
   \<and> (\<forall>edgeSrc edgeDst initial.
          initial_support g = Some (edgeSrc, edgeDst, initial) \<longrightarrow>
            prune_loop (threshold k) (nat (numEdges g)) 0 initial = pruned (sint k - 2) initial)
   \<and> fst (pruned (sint k - 2) support)
        = map (\<lambda>s. if s \<ge> 0 \<and> s < sint k - 2 then - 1 else s) support
   \<and> (\<forall>i < length support.
          fst (pruned (sint k - 2) support) ! i = support ! i
          \<or> (0 \<le> support ! i \<and> support ! i < sint k - 2
              \<and> fst (pruned (sint k - 2) support) ! i = - 1))
   \<and> fst (pruned (sint k - 2) support) =
        (if support = [] then support
         else fst (prune_pass (sint k - 2) (length support) 0 support False))
   \<and> prune_pass (sint k - 2) (length support) 0
         (fst (prune_pass (sint k - 2) (length support) 0 support False)) False
       = (fst (prune_pass (sint k - 2) (length support) 0 support False), False)"
proof -
  define thr where "thr = sint k - 2"
  have T: "threshold k = thr"
    unfolding thr_def by (rule threshold_in_range [OF assms])
  have A: "kTruss g k =
     (case initial_support g of
        None \<Rightarrow> None
      | Some (edgeSrc, edgeDst, initial) \<Rightarrow>
          Some (map (\<lambda>i. (int i, edgeSrc ! i, edgeDst ! i, initial ! i))
                 (filter (\<lambda>i. initial ! i \<ge> thr) [0..<nat (numEdges g)])))"
    by (simp add: kTruss_filter print_edges_def T split: option.splits)
  have B: "wf_graph g \<longrightarrow>
        kTruss g k =
          Some (map (\<lambda>i. (int i, fst (edges g ! i), snd (edges g ! i), csr_count g i))
                 (filter (\<lambda>i. csr_count g i \<ge> thr) [0..<nat (numEdges g)]))"
  proof
    assume wf: "wf_graph g"
    have le: "length (edges g) = nat (numEdges g)" using wf by (simp add: wf_graph_def)
    have f: "filter (\<lambda>i. map (csr_count g) [0..<nat (numEdges g)] ! i \<ge> thr)
               [0..<nat (numEdges g)]
             = filter (\<lambda>i. csr_count g i \<ge> thr) [0..<nat (numEdges g)]"
      by (rule filter_cong) simp_all
    have "map (\<lambda>i. (int i, map fst (edges g) ! i, map snd (edges g) ! i,
                     map (csr_count g) [0..<nat (numEdges g)] ! i))
            (filter (\<lambda>i. csr_count g i \<ge> thr) [0..<nat (numEdges g)])
          = map (\<lambda>i. (int i, fst (edges g ! i), snd (edges g ! i), csr_count g i))
            (filter (\<lambda>i. csr_count g i \<ge> thr) [0..<nat (numEdges g)])"
      using le by (intro map_cong) simp_all
    then show "kTruss g k =
          Some (map (\<lambda>i. (int i, fst (edges g ! i), snd (edges g ! i), csr_count g i))
                 (filter (\<lambda>i. csr_count g i \<ge> thr) [0..<nat (numEdges g)]))"
      using kTruss_wf [OF wf, of k] by (simp add: print_edges_def f T)
  qed
  have G: "\<forall>edgeSrc edgeDst initial.
          initial_support g = Some (edgeSrc, edgeDst, initial) \<longrightarrow>
            prune_loop (threshold k) (nat (numEdges g)) 0 initial = pruned thr initial"
  proof (intro allI impI)
    fix edgeSrc edgeDst initial
    assume "initial_support g = Some (edgeSrc, edgeDst, initial)"
    then have "length initial = nat (numEdges g)" by (rule initial_support_length)
    then show "prune_loop (threshold k) (nat (numEdges g)) 0 initial = pruned thr initial"
      by (simp add: pruned_def T)
  qed
  have m: "mark_removed thr = (\<lambda>s. if s \<ge> 0 \<and> s < thr then - 1 else s)"
    by (rule ext) (simp add: mark_removed_def)
  have C: "fst (pruned thr support) = map (\<lambda>s. if s \<ge> 0 \<and> s < thr then - 1 else s) support"
    by (simp add: pruned_eq m)
  have D: "\<forall>i < length support.
          fst (pruned thr support) ! i = support ! i
          \<or> (0 \<le> support ! i \<and> support ! i < thr \<and> fst (pruned thr support) ! i = - 1)"
    by (simp add: C)
  have E: "fst (pruned thr support) =
        (if support = [] then support else fst (prune_pass thr (length support) 0 support False))"
    by (simp add: pruned_eq prune_pass_full)
  have F: "prune_pass thr (length support) 0
         (fst (prune_pass thr (length support) 0 support False)) False
       = (fst (prune_pass thr (length support) 0 support False), False)"
    using prune_pass_again [of thr support] by (simp add: prune_pass_full)
  show ?thesis
    using T A B G C D E F unfolding thr_def by blast
qed

text \<open>The amended claim on the example graph with \<open>k = 4\<close>, where \<open>k - 2 = 2\<close>.\<close>

theorem kTruss_prune_is_single_filter_witness:
  "wf_graph diamond \<and> - 2147483646 \<le> sint (4 :: 32 word)
   \<and> sint (4 :: 32 word) - 2 = 2
   \<and> initial_support diamond = Some ([0, 0, 1, 1, 2], [1, 2, 2, 3, 3], [1, 1, 2, 1, 1])
   \<and> threshold 4 = 2
   \<and> kTruss diamond 4 = Some [(2, 1, 2, 2)]
   \<and> prune_loop (threshold 4) (nat (numEdges diamond)) 0 [1, 1, 2, 1, 1]
        = pruned 2 [1, 1, 2, 1, 1]
   \<and> fst (pruned 2 [1, 1, 2, 1, 1]) = [- 1, - 1, 2, - 1, - 1]
   \<and> fst (prune_pass 2 (length [1, 1, 2, 1, 1 :: int]) 0 [1, 1, 2, 1, 1] False)
        = [- 1, - 1, 2, - 1, - 1]
   \<and> prune_pass 2 (length [1, 1, 2, 1, 1 :: int]) 0 [- 1, - 1, 2, - 1, - 1] False
        = ([- 1, - 1, 2, - 1, - 1], False)"
proof -
  have h: "- 2147483646 \<le> sint (4 :: 32 word)" by simp
  have p: "fst (prune_pass 2 (length [1, 1, 2, 1, 1 :: int]) 0 [1, 1, 2, 1, 1] False)
             = [- 1, - 1, 2, - 1, - 1]"
    using prune_pass_full [of 2 "[1, 1, 2, 1, 1]"] by (simp add: mark_removed_def)
  from kTruss_prune_is_single_filter [OF h, of diamond "[1, 1, 2, 1, 1]"]
  show ?thesis
    using diamond_wf p by (simp add: diamond_initial_support diamond_peel4 threshold_4)
qed

text \<open>
  Claim C6. For every valid graph and all \<open>2 \<le> k1 < k2\<close>, what \<open>kTruss\<close> reports for \<open>k2\<close>
  is among what it reports for \<open>k1\<close>, as report lines and as edges.
\<close>

theorem kTruss_monotone_in_k:
  assumes "wf_graph g" "2 \<le> sint k1" "sint k1 < sint k2"
  shows "\<exists>r1 r2. kTruss g k1 = Some r1 \<and> kTruss g k2 = Some r2
           \<and> set r2 \<subseteq> set r1 \<and> set (survivors r2) \<subseteq> set (survivors r1)"
proof -
  have t1: "threshold k1 = sint k1 - 2" using assms(2) by (intro threshold_in_range) simp
  have t2: "threshold k2 = sint k2 - 2" using assms(2,3) by (intro threshold_in_range) simp
  have le: "threshold k1 \<le> threshold k2" using assms(3) t1 t2 by simp
  let ?r = "\<lambda>k. print_edges (threshold k) (nat (numEdges g))
                        (map fst (edges g)) (map snd (edges g))
                        (map (csr_count g) [0..<nat (numEdges g)])"
  have sub: "set (?r k2) \<subseteq> set (?r k1)" using le by (rule print_edges_mono)
  then have "set (survivors (?r k2)) \<subseteq> set (survivors (?r k1))"
    unfolding survivors_def set_map by (rule image_mono)
  then show ?thesis
    using kTruss_wf [OF assms(1), of k1] kTruss_wf [OF assms(1), of k2] sub by blast
qed

text \<open>The claim on the example graph with \<open>k1 = 3\<close> and \<open>k2 = 4\<close>.\<close>

theorem kTruss_monotone_in_k_witness:
  "wf_graph diamond \<and> 2 \<le> sint (3 :: 32 word) \<and> sint (3 :: 32 word) < sint (4 :: 32 word)
   \<and> kTruss diamond 3
        = Some [(0, 0, 1, 1), (1, 0, 2, 1), (2, 1, 2, 2), (3, 1, 3, 1), (4, 2, 3, 1)]
   \<and> kTruss diamond 4 = Some [(2, 1, 2, 2)]
   \<and> set (survivors [(2, 1, 2, 2)])
        \<subseteq> set (survivors [(0, 0, 1, 1), (1, 0, 2, 1), (2, 1, 2, 2), (3, 1, 3, 1), (4, 2, 3, 1)])"
proof -
  have h2: "2 \<le> sint (3 :: 32 word)" by simp
  have h3: "sint (3 :: 32 word) < sint (4 :: 32 word)" by simp
  from kTruss_monotone_in_k [OF diamond_wf h2 h3]
  show ?thesis using diamond_wf h2 h3 by (simp add: diamond_peel3 diamond_peel4)
qed




text \<open>
  Claim C7, as the specification states it: \<open>k < 2\<close> is rejected before any edge state is
  touched and the loop never runs. \<open>kTruss\<close> has no such check. On the example graph with
  \<open>k = 1\<close> it runs one round of the loop and reports all five edges.
\<close>

theorem kTruss_small_k_counterexample:
  "sint (1 :: 32 word) < 2
   \<and> kTruss diamond 1
        = Some [(0, 0, 1, 1), (1, 0, 2, 1), (2, 1, 2, 2), (3, 1, 3, 1), (4, 2, 3, 1)]
   \<and> pruned (threshold 1) [1, 1, 2, 1, 1] = ([1, 1, 2, 1, 1], 1)"
proof -
  have "kTruss diamond 1
        = Some [(0, 0, 1, 1), (1, 0, 2, 1), (2, 1, 2, 2), (3, 1, 3, 1), (4, 2, 3, 1)]"
    by code_simp
  moreover have "pruned (- 1) [1, 1, 2, 1, 1] = ([1, 1, 2, 1, 1], 1)"
    by code_simp
  ultimately show ?thesis by (simp add: threshold_1)
qed

text \<open>
  Claim C7, amended. \<open>kTruss\<close> rejects no \<open>k\<close>: on a valid graph it has a result for every
  \<open>k\<close>. For \<open>k < 2\<close> whose threshold \<open>k - 2\<close> does not overflow, the kernel computes the
  supports, the loop runs one round (none on a graph without edges) that changes no
  slot, and every edge is reported with its initial support.
\<close>

theorem kTruss_small_k_not_rejected:
  assumes "wf_graph g" "- 2147483646 \<le> sint k" "sint k < 2"
  shows "(\<forall>k'. \<exists>r. kTruss g k' = Some r)
         \<and> kTruss g k
           = Some (map (\<lambda>i. (int i, fst (edges g ! i), snd (edges g ! i), csr_count g i))
                    [0..<nat (numEdges g)])
         \<and> initial_support g
             = Some (map fst (edges g), map snd (edges g), map (csr_count g) [0..<nat (numEdges g)])
         \<and> pruned (threshold k) (map (csr_count g) [0..<nat (numEdges g)])
             = (map (csr_count g) [0..<nat (numEdges g)], if numEdges g = 0 then 0 else 1)"
proof -
  have t: "threshold k \<le> 0"
    using threshold_in_range [OF assms(2)] assms(3) by simp
  have ne: "0 \<le> numEdges g" using assms(1) by (simp add: wf_graph_def)
  let ?s = "map (csr_count g) [0..<nat (numEdges g)]"
  have nn: "\<forall>s \<in> set ?s. 0 \<le> s" by (simp add: csr_count_nonneg)
  have m: "map (mark_removed (threshold k)) ?s = ?s"
    by (rule mark_removed_nonneg [OF t nn])
  have b: "\<not> below (threshold k) ?s" by (rule below_nonneg [OF t])
  have e: "(?s = []) = (numEdges g = 0)" using ne by simp
  have "pruned (threshold k) ?s = (?s, if ?s = [] then 0 else 1)"
    unfolding pruned_eq m using b by simp
  then have "pruned (threshold k) ?s = (?s, if numEdges g = 0 then 0 else 1)"
    unfolding e .
  moreover have "\<forall>k'. \<exists>r. kTruss g k' = Some r"
    using kTruss_wf [OF assms(1)] by blast
  ultimately show ?thesis
    using kTruss_wf_all [OF assms(1) t] initial_support_wf [OF assms(1)] by simp
qed

text \<open>The amended claim on the example graph with \<open>k = 1\<close>.\<close>

theorem kTruss_small_k_not_rejected_witness:
  "wf_graph diamond \<and> - 2147483646 \<le> sint (1 :: 32 word) \<and> sint (1 :: 32 word) < 2
   \<and> kTruss diamond 1
        = Some (map (\<lambda>i. (int i, fst (edges diamond ! i), snd (edges diamond ! i),
                           csr_count diamond i)) [0..<nat (numEdges diamond)])
   \<and> pruned (threshold 1) (map (csr_count diamond) [0..<nat (numEdges diamond)])
        = (map (csr_count diamond) [0..<nat (numEdges diamond)], 1)"
proof -
  have h2: "- 2147483646 \<le> sint (1 :: 32 word)" by simp
  have h3: "sint (1 :: 32 word) < 2" by simp
  have n: "numEdges diamond \<noteq> 0" by (simp add: diamond_def)
  from kTruss_small_k_not_rejected [OF diamond_wf h2 h3]
  show ?thesis using diamond_wf h2 h3 n by simp
qed

text \<open>
  Claim C10, as stated: for every \<open>k \<le> 2\<close> no edge is removed. For the least \<open>int\<close> the
  subtraction \<open>k - 2\<close> leaves the range of \<open>int\<close>; in 32 bits it wraps to 2147483646, the
  one edge of the graph \<open>single_edge\<close> has support 0 below it, is marked and is not
  reported.
\<close>

theorem kTruss_min_k_counterexample:
  "sint (- 2147483648 :: 32 word) \<le> 2
   \<and> threshold (- 2147483648) = 2147483646
   \<and> edges single_edge = [(0, 1)]
   \<and> initial_support single_edge = Some ([0], [1], [0])
   \<and> pruned (threshold (- 2147483648)) [0] = ([- 1], 1)
   \<and> kTruss single_edge (- 2147483648) = Some []"
proof -
  have "initial_support single_edge = Some ([0], [1], [0])" by code_simp
  moreover have "pruned 2147483646 [0] = ([- 1], 1)" by code_simp
  moreover have "kTruss single_edge (- 2147483648) = Some []" by code_simp
  moreover have "edges single_edge = [(0, 1)]" by (simp add: single_edge_def)
  ultimately show ?thesis by (simp add: threshold_min)
qed

text \<open>
  Claim C10, amended. For every valid graph and every \<open>k \<le> 2\<close> whose threshold \<open>k - 2\<close> does
  not overflow (\<open>k \<ge> -2147483646\<close>), the loop marks no slot and \<open>kTruss\<close> reports every edge
  of the edge list, in order, with its initial support.
\<close>

theorem kTruss_k_le_2_removes_nothing:
  assumes "wf_graph g" "- 2147483646 \<le> sint k" "sint k \<le> 2"
  shows "fst (pruned (threshold k) (map (csr_count g) [0..<nat (numEdges g)]))
           = map (csr_count g) [0..<nat (numEdges g)]
         \<and> (\<exists>r. kTruss g k = Some r \<and> survivors r = edges g
                \<and> map (\<lambda>(i, u, v, s). s) r = map (csr_count g) [0..<nat (numEdges g)])"
proof -
  have t: "threshold k \<le> 0"
    using threshold_in_range [OF assms(2)] assms(3) by simp
  have le: "length (edges g) = nat (numEdges g)" using assms(1) by (simp add: wf_graph_def)
  let ?s = "map (csr_count g) [0..<nat (numEdges g)]"
  let ?r = "map (\<lambda>i. (int i, fst (edges g ! i), snd (edges g ! i), csr_count g i))
              [0..<nat (numEdges g)]"
  have nn: "\<forall>s \<in> set ?s. 0 \<le> s" by (simp add: csr_count_nonneg)
  have m: "map (mark_removed (threshold k)) ?s = ?s"
    by (rule mark_removed_nonneg [OF t nn])
  have p: "fst (pruned (threshold k) ?s) = ?s"
    unfolding pruned_eq fst_conv by (rule m)
  have "survivors ?r = map (\<lambda>i. edges g ! i) [0..<length (edges g)]"
    by (simp add: survivors_def le)
  then have s: "survivors ?r = edges g" by (simp add: map_nth)
  have c: "map (\<lambda>(i, u, v, s). s) ?r = ?s" by simp
  show ?thesis using p kTruss_wf_all [OF assms(1) t] s c by blast
qed

text \<open>The amended claim on the example graph with \<open>k = 2\<close>.\<close>

theorem kTruss_k_le_2_removes_nothing_witness:
  "wf_graph diamond \<and> - 2147483646 \<le> sint (2 :: 32 word) \<and> sint (2 :: 32 word) \<le> 2
   \<and> fst (pruned (threshold 2) (map (csr_count diamond) [0..<nat (numEdges diamond)]))
        = map (csr_count diamond) [0..<nat (numEdges diamond)]
   \<and> (\<exists>r. kTruss diamond 2 = Some r \<and> survivors r = edges diamond)"
proof -
  have h2: "- 2147483646 \<le> sint (2 :: 32 word)" by simp
  have h3: "sint (2 :: 32 word) \<le> 2" by simp
  from kTruss_k_le_2_removes_nothing [OF diamond_wf h2 h3]
  show ?thesis using diamond_wf h2 h3 by blast
qed

section \<open>Where the pruning loop departs from peeling\<close>

text \<open>
  The README defines a k-truss as a subgraph in which each edge is part of at least
  \<open>k - 2\<close> triangles, and the loop of lines 98-107 iterates until a round changes nothing.
  It never lowers the support of an edge whose triangle lost an edge, so its later
  rounds find nothing to do. The four theorems below run the code on the example graph
  with \<open>k = 4\<close>.
\<close>

text \<open>
  Claim C1 (the code departs from it). The edge \<open>{1, 2}\<close>, at index 2, starts with support
  2. The first round removes the four other edges, which are the partners of \<open>{1, 2}\<close>
  in both of its triangles. The slot of \<open>{1, 2}\<close> is 2 after that round and at the end:
  it is not decremented, and the second round has no edge to examine.
\<close>

theorem diamond_support_never_decremented:
  "initial_support diamond = Some ([0, 0, 1, 1, 2], [1, 2, 2, 3, 3], [1, 1, 2, 1, 1])
   \<and> threshold 4 = 2 \<and> nat (numEdges diamond) = 5
   \<and> prune_pass 2 5 0 [1, 1, 2, 1, 1] False = ([- 1, - 1, 2, - 1, - 1], True)
   \<and> prune_pass 2 5 0 [- 1, - 1, 2, - 1, - 1] False = ([- 1, - 1, 2, - 1, - 1], False)
   \<and> prune_loop (threshold 4) (nat (numEdges diamond)) 0 [1, 1, 2, 1, 1]
        = ([- 1, - 1, 2, - 1, - 1], 2)"
proof -
  have "prune_pass 2 5 0 [1, 1, 2, 1, 1] False = ([- 1, - 1, 2, - 1, - 1], True)"
    by code_simp
  moreover have "prune_pass 2 5 0 [- 1, - 1, 2, - 1, - 1] False = ([- 1, - 1, 2, - 1, - 1], False)"
    by code_simp
  moreover have "prune_loop 2 5 0 [1, 1, 2, 1, 1] = ([- 1, - 1, 2, - 1, - 1], 2)"
    by code_simp
  moreover have "nat (numEdges diamond) = 5" by (simp add: diamond_def)
  ultimately show ?thesis
    by (simp add: diamond_initial_support threshold_4)
qed

text \<open>
  Claim C2 (the code departs from it). \<open>kTruss\<close> with \<open>k = 4\<close> on the example graph reports the
  edge \<open>{1, 2}\<close> with support 2; the claim has it removed in the second round and the
  result empty.
\<close>

theorem diamond_peel4_reports_edge_1_2:
  "kTruss diamond 4 = Some [(2, 1, 2, 2)] \<and> kTruss diamond 4 \<noteq> Some []"
  by (simp add: diamond_peel4)

text \<open>
  Claim C3 (the code departs from it). The edge \<open>{1, 2}\<close> that survives \<open>k = 4\<close> on the
  example graph lies in no triangle of surviving edges: its support among the survivors
  is 0, below the threshold 2.
\<close>

theorem diamond_peel4_survivor_below_threshold:
  "kTruss diamond 4 = Some [(2, 1, 2, 2)]
   \<and> survivors [(2, 1, 2, 2)] = [(1, 2)]
   \<and> spec_support (survivors [(2, 1, 2, 2)]) 1 2 = 0
   \<and> int (spec_support (survivors [(2, 1, 2, 2)]) 1 2) < threshold 4"
proof -
  have "spec_support [(1, 2)] 1 2 = 0" by code_simp
  then show ?thesis by (simp add: diamond_peel4 survivors_def threshold_4)
qed

text \<open>
  Claim C5 (the code departs from it). The survivors of \<open>k = 4\<close> on the example graph are
  the edge list of \<open>diamond_rest\<close>, and \<open>kTruss\<close> with \<open>k = 4\<close> on that graph reports no edge:
  the result of the first run is not a fixed point.
\<close>

theorem diamond_peel4_not_fixed_point:
  "kTruss diamond 4 = Some [(2, 1, 2, 2)]
   \<and> edges diamond_rest = survivors [(2, 1, 2, 2)]
   \<and> kTruss diamond_rest 4 = Some []"
proof -
  have "kTruss diamond_rest 4 = Some []" by code_simp
  then show ?thesis by (simp add: diamond_peel4 survivors_def diamond_rest_def)
qed

end
